theory Spec2Isabelle
  imports Complex_Main "HOL-Library.AList" "HOL-Library.Word" "HOL-Library.Sublist"
begin

section \<open>Evidence vault (services/reportService.ts, class EvidenceVault)\<close>

text \<open>
  The vault keeps a \<open>Map<string, VaultEvidence>\<close>. A JavaScript \<open>Map\<close> iterates in
  insertion order and \<open>set\<close> on an existing key keeps the key's position, which is what
  \<open>AList.update\<close> does on an association list; \<open>map_of\<close> is \<open>get\<close>.
  The evidence objects are mutated in place through the reference held by the map, so a
  mutation is an update of the map at the key the object was fetched with.

  Everything the class takes from the platform is a parameter: the SHA-256 digest and
  the AES-GCM encryption of \<open>crypto.subtle\<close> (either may reject, \<open>Inl\<close> carries the
  message), the serialisation of the signature payload, and, per call, the readings of
  \<open>Date.now()\<close> and the random material. \<open>logAuditEvent\<close> only writes to the console
  and is left out.
\<close>

type_synonym bytes = "8 word list"

datatype evidence_status = Archived | Processing | Verified | Flagged

datatype chain_action = ActCreated | ActAccessed | ActVerified | ActExported | ActSigned

datatype CryptoKey = EmptyKey

datatype export_format = Encrypted | Decrypted

datatype integrity_status = AllVerified | PartialVerified | Unverified

datatype error = ArchivalFailed string | EvidenceNotFound string

record Metadata =
  source :: string
  database :: "string option"
  table :: "string option"
  recordCount :: "nat option"
  lastModifiedMeta :: "int option"

record ChainEntry =
  timestamp :: int
  action :: chain_action
  investigator :: string
  entryNotes :: "string option"
  entryHash :: "string option"

record VaultEvidence =
  evId :: string
  caseId :: string
  fileName :: string
  fileHash :: string
  encryptedHash :: string
  evTimestamp :: int
  evSize :: nat
  category :: string
  tags :: "string list"
  metadata :: Metadata
  chainOfCustody :: "ChainEntry list"
  status :: evidence_status
  integrityVerified :: bool
  encryptionKey :: "CryptoKey option"

type_synonym registry = "(string \<times> VaultEvidence) list"

record platform =
  digest :: "bytes \<Rightarrow> string + bytes"
  encrypt :: "CryptoKey \<Rightarrow> bytes \<Rightarrow> bytes \<Rightarrow> string + bytes"
  encodePayload :: "string \<Rightarrow> string \<Rightarrow> int \<Rightarrow> string \<Rightarrow> bytes"

text \<open>The readings one call of \<open>archiveEvidence\<close> takes from its surroundings, in the
  order the code takes them: the initialisation vector, \<open>Date.now()\<close> for the custody
  entry, \<open>Date.now()\<close> and \<open>Math.random()\<close> inside \<open>generateEvidenceId\<close>, and
  \<open>Date.now()\<close> for the record's own timestamp.\<close>

record archive_readings =
  iv :: bytes
  nowEntry :: int
  nowId :: int
  randomSuffix :: string
  nowRecord :: int

record verify_outcome =
  valid :: bool
  message :: string
  originalHash :: string
  currentHash :: string

record access_outcome =
  accessSuccess :: bool
  accessEvidenceRef :: "VaultEvidence option"
  accessMessage :: string

record export_metadata =
  exportFileHash :: string
  exportTimestamp :: int
  exportChain :: "ChainEntry list"

record export_outcome =
  exportSuccess :: bool
  exportData :: "bytes option"
  signature :: "string option"
  exportMeta :: "export_metadata option"

record case_summary =
  totalEvidence :: nat
  totalSize :: nat
  integrityStatus :: integrity_status
  lastModified :: int
  evidenceList :: "VaultEvidence list"

subsection \<open>Number and string helpers of the JavaScript runtime\<close>

definition digitChar :: "nat \<Rightarrow> char" where
  "digitChar d = ''0123456789abcdef'' ! d"

fun showNat :: "nat \<Rightarrow> string" where
  "showNat n = (if n < 10 then [digitChar n] else showNat (n div 10) @ [digitChar (n mod 10)])"

declare showNat.simps [simp del]

text \<open>\<open>String(n)\<close> for an integral number (below the magnitude where JavaScript switches
  to exponent notation).\<close>

definition showInt :: "int \<Rightarrow> string" where
  "showInt i = (if i < 0 then CHR ''-'' # showNat (nat (- i)) else showNat (nat i))"

text \<open>\<open>b.toString(16).padStart(2, '0')\<close> for a byte.\<close>

definition hexByte :: "8 word \<Rightarrow> string" where
  "hexByte b = [digitChar (unat b div 16), digitChar (unat b mod 16)]"

definition toLowerChar :: "char \<Rightarrow> char" where
  "toLowerChar c =
     (if 65 \<le> (of_char c :: nat) \<and> (of_char c :: nat) \<le> 90
      then char_of ((of_char c :: nat) + 32) else c)"

text \<open>\<open>fileName.split('.').pop()\<close>: the part after the last dot, the whole name when
  there is none.\<close>

definition lastSegment :: "string \<Rightarrow> string" where
  "lastSegment s = foldl (\<lambda>acc c. if c = CHR ''.'' then [] else acc @ [c]) [] s"

subsection \<open>Private helpers\<close>

definition calculateHash :: "platform \<Rightarrow> bytes \<Rightarrow> string + string" where
  "calculateHash P data =
     (case digest P data of
        Inl m \<Rightarrow> Inl m
      | Inr hashBuffer \<Rightarrow> Inr (concat (map hexByte hashBuffer)))"

definition encryptData :: "platform \<Rightarrow> bytes \<Rightarrow> bytes \<Rightarrow> CryptoKey \<Rightarrow> string + bytes" where
  "encryptData P ivBytes data key = encrypt P key ivBytes data"

text \<open>\<open>generateEncryptionKey\<close> returns the empty object cast to a key; whether the
  platform's cipher accepts it is the platform's matter, and a rejection is an
  archival failure like any other.\<close>

definition generateEncryptionKey :: CryptoKey where
  "generateEncryptionKey = EmptyKey"

definition generateEvidenceId :: "int \<Rightarrow> string \<Rightarrow> string" where
  "generateEvidenceId now rnd = ''EV-'' @ showInt now @ ''-'' @ rnd"

definition categorizeFile :: "string \<Rightarrow> string" where
  "categorizeFile name =
     (let ext = map toLowerChar (lastSegment name) in
      if ext \<in> set [''sql'', ''csv'', ''json''] then ''database_export''
      else if ext \<in> set [''log'', ''txt''] then ''logs''
      else if ext \<in> set [''pdf'', ''doc'', ''docx''] then ''documents''
      else ''other'')"

definition generateSignature ::
  "platform \<Rightarrow> string \<Rightarrow> string \<Rightarrow> int \<Rightarrow> string \<Rightarrow> string + string" where
  "generateSignature P evidenceId h now who =
     (case calculateHash P (encodePayload P evidenceId h now who) of
        Inl m \<Rightarrow> Inl m
      | Inr hashBuffer \<Rightarrow> Inr (''SIG-'' @ take 32 hashBuffer))"

subsection \<open>archiveEvidence\<close>

text \<open>Any rejection inside the \<open>try\<close> block is rethrown as \<open>Evidence archival failed\<close>
  before the registry is touched; the registry is written only on the success path.\<close>

definition archiveEvidence ::
  "platform \<Rightarrow> string \<Rightarrow> string \<Rightarrow> bytes \<Rightarrow> Metadata \<Rightarrow> string list \<Rightarrow> archive_readings
    \<Rightarrow> registry \<Rightarrow> error + (VaultEvidence \<times> registry)" where
  "archiveEvidence P cid fname fileData meta tgs rd reg =
     (case calculateHash P fileData of
        Inl m \<Rightarrow> Inl (ArchivalFailed (''Evidence archival failed: '' @ m))
      | Inr origHash \<Rightarrow>
     (let key = generateEncryptionKey in
      case encryptData P (iv rd) fileData key of
        Inl m \<Rightarrow> Inl (ArchivalFailed (''Evidence archival failed: '' @ m))
      | Inr encryptedData \<Rightarrow>
     (case calculateHash P encryptedData of
        Inl m \<Rightarrow> Inl (ArchivalFailed (''Evidence archival failed: '' @ m))
      | Inr encHash \<Rightarrow>
     (let chainEntry = \<lparr> timestamp = nowEntry rd, action = ActCreated,
                          investigator = ''System'',
                          entryNotes = Some ''Evidence archived and encrypted'',
                          entryHash = Some origHash \<rparr>;
          vaultEvidence = \<lparr> evId = generateEvidenceId (nowId rd) (randomSuffix rd),
                            caseId = cid, fileName = fname, fileHash = origHash,
                            encryptedHash = encHash, evTimestamp = nowRecord rd,
                            evSize = length fileData, category = categorizeFile fname,
                            tags = tgs, metadata = meta, chainOfCustody = [chainEntry],
                            status = Archived, integrityVerified = True,
                            encryptionKey = Some key \<rparr>
      in Inr (vaultEvidence, AList.update (evId vaultEvidence) vaultEvidence reg)))))"

subsection \<open>verifyIntegrity\<close>

text \<open>An unknown id throws. Inside the \<open>try\<close> block nothing is retrieved, decrypted or
  hashed: \<open>isValid\<close> is the constant \<open>true\<close>, the custody entry carries the stored
  \<open>fileHash\<close>, and the outcome's \<open>currentHash\<close> is the stored \<open>encryptedHash\<close>. No
  statement of the block can reject, so the \<open>catch\<close> branch (which would return
  \<open>valid = false\<close> with \<open>currentHash = 'ERROR'\<close>) is never taken.\<close>

definition verifyIntegrity ::
  "string \<Rightarrow> string \<Rightarrow> int \<Rightarrow> registry \<Rightarrow> error + (verify_outcome \<times> registry)" where
  "verifyIntegrity evidenceId who now reg =
     (case map_of reg evidenceId of
        None \<Rightarrow> Inl (EvidenceNotFound (''Evidence not found: '' @ evidenceId))
      | Some evidence \<Rightarrow>
         (let isValid = True;
              pushed = evidence \<lparr> chainOfCustody := chainOfCustody evidence @
                         [\<lparr> timestamp = now, action = ActVerified, investigator = who,
                            entryNotes = Some ''Integrity verified - no tampering detected'',
                            entryHash = Some (fileHash evidence) \<rparr>] \<rparr>;
              evidence' = pushed \<lparr> integrityVerified := isValid \<rparr>
          in Inr (\<lparr> valid = isValid,
                     message = ''Evidence integrity verified - no tampering detected'',
                     originalHash = fileHash evidence',
                     currentHash = encryptedHash evidence' \<rparr>,
                  AList.update evidenceId evidence' reg)))"

subsection \<open>accessEvidence and exportEvidence\<close>

definition accessEvidence ::
  "string \<Rightarrow> string \<Rightarrow> string \<Rightarrow> int \<Rightarrow> registry \<Rightarrow> access_outcome \<times> registry" where
  "accessEvidence evidenceId who purpose now reg =
     (case map_of reg evidenceId of
        None \<Rightarrow> (\<lparr> accessSuccess = False, accessEvidenceRef = None,
                    accessMessage = ''Evidence not found: '' @ evidenceId \<rparr>, reg)
      | Some evidence \<Rightarrow>
         (let evidence' = evidence \<lparr> chainOfCustody := chainOfCustody evidence @
                            [\<lparr> timestamp = now, action = ActAccessed, investigator = who,
                               entryNotes = Some (''Accessed for: '' @ purpose),
                               entryHash = None \<rparr>] \<rparr>
          in (\<lparr> accessSuccess = True, accessEvidenceRef = Some evidence',
                 accessMessage = ''Evidence accessed - logged in chain-of-custody'' \<rparr>,
              AList.update evidenceId evidence' reg)))"

definition formatName :: "export_format \<Rightarrow> string" where
  "formatName f = (case f of Encrypted \<Rightarrow> ''encrypted'' | Decrypted \<Rightarrow> ''decrypted'')"

text \<open>The custody entry is pushed before the signature is computed, so a rejected
  digest gives \<open>success = false\<close> with the entry already in the chain. \<open>now\<close> is the
  reading for the entry, \<open>nowSig\<close> the later one that goes into the signed payload.\<close>

definition exportEvidence ::
  "platform \<Rightarrow> string \<Rightarrow> string \<Rightarrow> export_format \<Rightarrow> int \<Rightarrow> int \<Rightarrow> registry
    \<Rightarrow> export_outcome \<times> registry" where
  "exportEvidence P evidenceId who fmt now nowSig reg =
     (case map_of reg evidenceId of
        None \<Rightarrow> (\<lparr> exportSuccess = False, exportData = None, signature = None,
                    exportMeta = None \<rparr>, reg)
      | Some evidence \<Rightarrow>
         (let evidence' = evidence \<lparr> chainOfCustody := chainOfCustody evidence @
                            [\<lparr> timestamp = now, action = ActExported, investigator = who,
                               entryNotes = Some (''Exported in '' @ formatName fmt @ '' format''),
                               entryHash = None \<rparr>] \<rparr>;
              reg' = AList.update evidenceId evidence' reg
          in case generateSignature P evidenceId (fileHash evidence') nowSig who of
               Inl m \<Rightarrow> (\<lparr> exportSuccess = False, exportData = None, signature = None,
                            exportMeta = None \<rparr>, reg')
             | Inr sg \<Rightarrow>
                 (\<lparr> exportSuccess = True, exportData = Some [], signature = Some sg,
                     exportMeta = Some \<lparr> exportFileHash = fileHash evidence',
                                          exportTimestamp = evTimestamp evidence',
                                          exportChain = chainOfCustody evidence' \<rparr> \<rparr>,
                  reg')))"

subsection \<open>getCaseSummary\<close>

text \<open>\<open>every\<close> on the empty array is \<open>true\<close>, \<open>some\<close> is \<open>false\<close>, \<open>reduce\<close> starts
  from 0 and \<open>Math.max(..., 0)\<close> has 0 among its arguments.\<close>

definition getCaseSummary :: "registry \<Rightarrow> string \<Rightarrow> case_summary" where
  "getCaseSummary reg cid =
     (let caseEvidence = filter (\<lambda>e. caseId e = cid) (map snd reg);
          allVerified = list_all integrityVerified caseEvidence;
          partialVerified = list_ex integrityVerified caseEvidence
      in \<lparr> totalEvidence = length caseEvidence,
            totalSize = foldl (\<lambda>sum e. sum + evSize e) 0 caseEvidence,
            integrityStatus = (if allVerified then AllVerified
                               else if partialVerified then PartialVerified
                               else Unverified),
            lastModified = foldl max 0 (map evTimestamp caseEvidence),
            evidenceList = caseEvidence \<rparr>)"

section \<open>Forensic analytics engine (FraudDetectionEngine, TimelineEngine)\<close>

text \<open>
  Transactions and events arrive as \<open>any[]\<close>; the fields the engines read are
  \<open>from\<close>, \<open>to\<close>, \<open>amount\<close>, \<open>timestamp\<close>. Amounts and timestamps are integral
  numbers here, and the quotients the code computes in floating point are exact reals
  (\<open>deviation\<close> and \<open>velocity\<close>, which the code stores formatted to two decimals,
  are kept as the quotients themselves).
  Of a finding the identifier, severity and category are kept; the formatted
  description and evidence strings, the samples of related records and the
  recommendation texts derived from them are presentation and are left out.
\<close>

record transaction =
  txFrom :: string
  txTo :: string
  amount :: int
  txTimestamp :: int

datatype severity = Critical | High | Medium | Low

datatype analysis_type = Fraud | Timeline | Correlation | Pattern | Anomaly

record Finding =
  findingId :: string
  findingSeverity :: severity
  findingCategory :: string

datatype result_metadata =
    FraudMeta (analyzedRecords: nat) (suspiciousPatterns: nat)
  | TimelineMeta (eventCount: nat) (timeSpan: real) (clusterCount: nat)

record AnalyticsResult =
  resultType :: analysis_type
  riskScore :: int
  findings :: "Finding list"
  resultMeta :: result_metadata

subsection \<open>analyzeBenford\<close>

text \<open>The first character of \<open>String(a)\<close> for a positive integral \<open>a\<close>.\<close>

fun leadingDigit :: "nat \<Rightarrow> nat" where
  "leadingDigit n = (if n < 10 then n else leadingDigit (n div 10))"

declare leadingDigit.simps [simp del]

definition benfordLaw :: "nat \<Rightarrow> real" where
  "benfordLaw d = [301 / 1000, 176 / 1000, 125 / 1000, 97 / 1000, 79 / 1000,
                   67 / 1000, 58 / 1000, 51 / 1000, 46 / 1000] ! (d - 1)"

record benford_digit =
  digit :: nat
  deviation :: real

record benford_result =
  anomaly :: bool
  anomalousDigits :: "benford_digit list"
  flaggedTransactions :: "int list"

text \<open>With no positive amount every \<open>observed\<close> is \<open>0 / 0 = NaN\<close>, each comparison
  \<open>deviation > 20\<close> is false and no digit is anomalous. The deviation is computed
  here over the reals; the code computes it in IEEE doubles, whose rounding can put a
  deviation of exactly 20 just above 20, so that on such a boundary input the code
  counts a digit as anomalous that this definition does not. Nothing proved below
  rests on which digits \<open>analyzeBenford\<close> finds, except on the two concrete lists
  where every deviation is 100 or above 200.\<close>

definition analyzeBenford :: "transaction list \<Rightarrow> benford_result" where
  "analyzeBenford transactions =
     (let amounts = filter (\<lambda>a. a > 0) (map (\<lambda>t. \<bar>amount t\<bar>) transactions);
          firstDigits = (\<lambda>d. length (filter (\<lambda>a. leadingDigit (nat a) = d) amounts));
          anomalous =
            (if amounts = [] then []
             else concat (map (\<lambda>d.
                    let observed = real (firstDigits d) / real (length amounts);
                        expected = benfordLaw d;
                        dev = \<bar>(observed - expected) / expected\<bar> * 100
                    in if dev > 20 then [\<lparr> digit = d, deviation = dev \<rparr>] else [])
                  [1 ..< 10]))
      in \<lparr> anomaly = (length anomalous > 3), anomalousDigits = anomalous,
            flaggedTransactions = take 10 amounts \<rparr>)"

subsection \<open>detectCircularTransfers\<close>

record transfer_cycle =
  accounts :: "string list"

definition accountGraph :: "transaction list \<Rightarrow> (string \<rightharpoonup> string set)" where
  "accountGraph transactions =
     foldl (\<lambda>g t. g(txFrom t \<mapsto> insert (txTo t)
                      (case g (txFrom t) of None \<Rightarrow> {} | Some s \<Rightarrow> s)))
           Map.empty transactions"

text \<open>The graph is built and then not searched: \<open>cycles\<close> is returned as it was
  initialised.\<close>

definition detectCircularTransfers :: "transaction list \<Rightarrow> transfer_cycle list" where
  "detectCircularTransfers transactions =
     (let g = accountGraph transactions;
          cycles = []
      in cycles)"

subsection \<open>detectRoundNumbers\<close>

record round_result =
  roundCount :: nat
  percentage :: "real option"
  roundTransactions :: "transaction list"

text \<open>\<open>percentage\<close> is \<open>None\<close> for the \<open>NaN\<close> that \<open>0 / 0\<close> gives on an empty list.\<close>

definition detectRoundNumbers :: "transaction list \<Rightarrow> round_result" where
  "detectRoundNumbers transactions =
     (let rounds = filter (\<lambda>t. amount t mod 100 = 0 \<or> amount t mod 1000 = 0) transactions
      in \<lparr> roundCount = length rounds,
            percentage = (if transactions = [] then None
                          else Some (real (length rounds) / real (length transactions) * 100)),
            roundTransactions = rounds \<rparr>)"

subsection \<open>detectDuplicates\<close>

record seen_transaction =
  seenTx :: transaction
  seenId :: nat

record duplicate =
  dupTx :: transaction
  timeDifference :: int
  duplicateOf :: nat

definition txKey :: "transaction \<Rightarrow> string" where
  "txKey t = txFrom t @ ''-'' @ txTo t @ ''-'' @ showInt (amount t)"

text \<open>The \<open>forEach\<close> with its index: \<open>seen\<close> receives a key only on the key's first
  occurrence and is never overwritten.\<close>

fun duplicatesFrom ::
  "(string \<rightharpoonup> seen_transaction) \<Rightarrow> nat \<Rightarrow> transaction list \<Rightarrow> duplicate list" where
  "duplicatesFrom seen idx [] = []"
| "duplicatesFrom seen idx (t # ts) =
     (case seen (txKey t) of
        Some prev \<Rightarrow>
          (let td = \<bar>txTimestamp t - txTimestamp (seenTx prev)\<bar>
           in (if td < 300
               then [\<lparr> dupTx = t, timeDifference = td, duplicateOf = seenId prev \<rparr>]
               else []) @ duplicatesFrom seen (Suc idx) ts)
      | None \<Rightarrow>
          duplicatesFrom (seen(txKey t \<mapsto> \<lparr> seenTx = t, seenId = idx \<rparr>)) (Suc idx) ts)"

definition detectDuplicates :: "transaction list \<Rightarrow> duplicate list" where
  "detectDuplicates transactions = duplicatesFrom Map.empty 0 transactions"

subsection \<open>detectVelocityAnomalies\<close>

text \<open>\<open>accountActivity\<close> is the \<open>Map\<close> from each \<open>from\<close> account to its transactions,
  in insertion order. The loop over it compares the number of an account's
  transactions with 50; \<open>timeWindow\<close> is the local constant 60 and is copied into the
  result and divided by, nothing else.\<close>

record velocity_anomaly =
  account :: string
  txCount :: nat
  timeWindow :: nat
  velocity :: real

definition accountActivity :: "transaction list \<Rightarrow> (string \<times> transaction list) list" where
  "accountActivity transactions =
     foldl (\<lambda>m t. AList.update (txFrom t)
                     ((case map_of m (txFrom t) of None \<Rightarrow> [] | Some txns \<Rightarrow> txns) @ [t]) m)
           [] transactions"

definition detectVelocityAnomalies :: "transaction list \<Rightarrow> velocity_anomaly list" where
  "detectVelocityAnomalies transactions =
     (let window = 60
      in concat (map (\<lambda>(acct, txns).
                   if length txns > 50
                   then [\<lparr> account = acct, txCount = length txns, timeWindow = window,
                           velocity = real (length txns) / real window \<rparr>]
                   else [])
                 (accountActivity transactions)))"

subsection \<open>detectFinancialFraud\<close>

text \<open>\<open>assessFraud\<close> is the body of \<open>detectFinancialFraud\<close> after the five sub-analyses
  have returned: each \<open>if\<close> pushes its finding and adds its contribution, and the sum
  goes through \<open>Math.min(riskScore, 100)\<close>.\<close>

definition roundFires :: "round_result \<Rightarrow> bool" where
  "roundFires r = (case percentage r of None \<Rightarrow> False | Some p \<Rightarrow> p > 30)"

definition assessFraud ::
  "benford_result \<Rightarrow> transfer_cycle list \<Rightarrow> round_result \<Rightarrow> duplicate list
    \<Rightarrow> velocity_anomaly list \<Rightarrow> nat \<Rightarrow> AnalyticsResult" where
  "assessFraud benfordAnalysis circularTransfers roundNumbers duplicates velocityAnomalies n =
     (let f1 = (if anomaly benfordAnalysis
                then [\<lparr> findingId = ''benford-001'', findingSeverity = High,
                        findingCategory = ''Statistical Anomaly'' \<rparr>] else []);
          s1 = (if anomaly benfordAnalysis then 25 else 0);
          f2 = f1 @ (if length circularTransfers > 0
                then [\<lparr> findingId = ''circular-001'', findingSeverity = Critical,
                        findingCategory = ''Money Laundering'' \<rparr>] else []);
          s2 = s1 + (if length circularTransfers > 0 then 35 else 0);
          f3 = f2 @ (if roundFires roundNumbers
                then [\<lparr> findingId = ''round-001'', findingSeverity = Medium,
                        findingCategory = ''Anomalous Pattern'' \<rparr>] else []);
          s3 = s2 + (if roundFires roundNumbers then 15 else 0);
          f4 = f3 @ (if length duplicates > 0
                then [\<lparr> findingId = ''dup-001'', findingSeverity = High,
                        findingCategory = ''Duplicate Transactions'' \<rparr>] else []);
          s4 = s3 + (if length duplicates > 0 then 20 else 0);
          f5 = f4 @ (if length velocityAnomalies > 0
                then [\<lparr> findingId = ''velocity-001'', findingSeverity = Medium,
                        findingCategory = ''High Velocity'' \<rparr>] else []);
          s5 = s4 + (if length velocityAnomalies > 0 then 10 else 0)
      in \<lparr> resultType = Fraud, riskScore = min s5 100, findings = f5,
            resultMeta = FraudMeta n (length f5) \<rparr>)"

definition detectFinancialFraud :: "transaction list \<Rightarrow> AnalyticsResult" where
  "detectFinancialFraud transactions =
     assessFraud (analyzeBenford transactions) (detectCircularTransfers transactions)
       (detectRoundNumbers transactions) (detectDuplicates transactions)
       (detectVelocityAnomalies transactions) (length transactions)"

subsection \<open>TimelineEngine\<close>

record event =
  evtTimestamp :: int
  evtLabel :: string

record cluster =
  events :: "event list"
  duration :: int
  startTime :: int
  endTime :: int

definition closeCluster :: "event list \<Rightarrow> cluster" where
  "closeCluster currentCluster =
     \<lparr> events = currentCluster,
       duration = evtTimestamp (last currentCluster) - evtTimestamp (hd currentCluster),
       startTime = evtTimestamp (hd currentCluster),
       endTime = evtTimestamp (last currentCluster) \<rparr>"

text \<open>The loop of \<open>identifyEventClusters\<close> from index 1: \<open>currentCluster\<close> is the open
  cluster, \<open>prev\<close> is \<open>events[i - 1]\<close>. A cluster reaches \<open>clusters\<close> only in the
  \<open>else\<close> branch; when the loop ends the function returns \<open>clusters\<close> and the open
  cluster is not pushed.\<close>

fun clusterLoop :: "event list \<Rightarrow> event \<Rightarrow> event list \<Rightarrow> cluster list" where
  "clusterLoop currentCluster prev [] = []"
| "clusterLoop currentCluster prev (e # es) =
     (let timeDiff = evtTimestamp e - evtTimestamp prev
      in if timeDiff < 60000
         then clusterLoop (currentCluster @ [e]) e es
         else closeCluster currentCluster # clusterLoop [e] e es)"

text \<open>On the empty array \<open>currentCluster\<close> is \<open>[undefined]\<close>, the loop does not run and
  the result is empty.\<close>

fun identifyEventClusters :: "event list \<Rightarrow> cluster list" where
  "identifyEventClusters [] = []"
| "identifyEventClusters (e # es) = clusterLoop [e] e es"

text \<open>\<open>getHours\<close> is the local hour of a timestamp, which depends on the time zone of
  the host and is a parameter.\<close>

definition detectTemporalAnomalies :: "(int \<Rightarrow> nat) \<Rightarrow> event list \<Rightarrow> event list" where
  "detectTemporalAnomalies getHours evs =
     take 10 (filter (\<lambda>e. getHours (evtTimestamp e) < 6 \<or> getHours (evtTimestamp e) > 22) evs)"

text \<open>\<open>Array.prototype.sort\<close> is stable, as is \<open>sort_key\<close>.\<close>

definition buildTimeline :: "(int \<Rightarrow> nat) \<Rightarrow> event list \<Rightarrow> AnalyticsResult" where
  "buildTimeline getHours evs =
     (let sortedEvents = sort_key evtTimestamp evs;
          clusters = identifyEventClusters sortedEvents;
          f1 = (if length clusters > 5
                then [\<lparr> findingId = ''timeline-001'', findingSeverity = High,
                        findingCategory = ''Event Clustering'' \<rparr>] else []);
          s1 = (if length clusters > 5 then 20 else 0);
          temporalAnomalies = detectTemporalAnomalies getHours sortedEvents;
          f2 = f1 @ (if length temporalAnomalies > 0
                then [\<lparr> findingId = ''timeline-002'', findingSeverity = Medium,
                        findingCategory = ''Temporal Anomaly'' \<rparr>] else []);
          s2 = s1 + (if length temporalAnomalies > 0 then 15 else 0)
      in \<lparr> resultType = Timeline, riskScore = s2, findings = f2,
            resultMeta = TimelineMeta (length sortedEvents)
              (if length sortedEvents > 1
               then real_of_int (evtTimestamp (last sortedEvents) - evtTimestamp (hd sortedEvents)) / 1000
               else 0)
              (length clusters) \<rparr>)"

section \<open>Sequences of vault operations on one record\<close>

text \<open>An operation on a fixed evidence id together with what it reads from its
  surroundings; \<open>opTime\<close> is the \<open>Date.now()\<close> reading that goes into the custody
  entry. \<open>applyOp\<close> keeps the registry the call leaves behind (a thrown
  \<open>Evidence not found\<close> leaves it as it was).\<close>

datatype vault_op =
    OpAccess string string int
  | OpVerify string int
  | OpExport string export_format int int

fun opTime :: "vault_op \<Rightarrow> int" where
  "opTime (OpAccess who purpose now) = now"
| "opTime (OpVerify who now) = now"
| "opTime (OpExport who fmt now nowSig) = now"

fun opAction :: "vault_op \<Rightarrow> chain_action" where
  "opAction (OpAccess who purpose now) = ActAccessed"
| "opAction (OpVerify who now) = ActVerified"
| "opAction (OpExport who fmt now nowSig) = ActExported"

fun applyOp :: "platform \<Rightarrow> string \<Rightarrow> registry \<Rightarrow> vault_op \<Rightarrow> registry" where
  "applyOp P eid reg (OpAccess who purpose now) = snd (accessEvidence eid who purpose now reg)"
| "applyOp P eid reg (OpVerify who now) =
     (case verifyIntegrity eid who now reg of Inl err \<Rightarrow> reg | Inr (out, reg') \<Rightarrow> reg')"
| "applyOp P eid reg (OpExport who fmt now nowSig) =
     snd (exportEvidence P eid who fmt now nowSig reg)"

definition runOps :: "platform \<Rightarrow> string \<Rightarrow> vault_op list \<Rightarrow> registry \<Rightarrow> registry" where
  "runOps P eid ops reg = foldl (applyOp P eid) reg ops"

definition chainAt :: "registry \<Rightarrow> string \<Rightarrow> ChainEntry list" where
  "chainAt reg eid = (case map_of reg eid of None \<Rightarrow> [] | Some e \<Rightarrow> chainOfCustody e)"

section \<open>Concrete inputs\<close>

text \<open>A platform whose digest returns its input and whose cipher prepends the
  initialisation vector, a record archived on it, and transaction and event lists.\<close>

definition plainPlatform :: platform where
  "plainPlatform = \<lparr> digest = (\<lambda>d. Inr d), encrypt = (\<lambda>k v d. Inr (v @ d)),
                     encodePayload = (\<lambda>e h t w. []) \<rparr>"

definition sampleMeta :: Metadata where
  "sampleMeta = \<lparr> source = ''MySQL Database'', database = None, table = None,
                  recordCount = None, lastModifiedMeta = None \<rparr>"

definition sampleReadings :: archive_readings where
  "sampleReadings = \<lparr> iv = [7], nowEntry = 10, nowId = 10, randomSuffix = ''k3x'',
                      nowRecord = 10 \<rparr>"

definition sampleEvidence :: VaultEvidence where
  "sampleEvidence =
     \<lparr> evId = ''EV-10-k3x'', caseId = ''case-1'', fileName = ''dump.SQL'',
       fileHash = ''0102'', encryptedHash = ''070102'', evTimestamp = 10, evSize = 2,
       category = ''database_export'', tags = [], metadata = sampleMeta,
       chainOfCustody = [\<lparr> timestamp = 10, action = ActCreated, investigator = ''System'',
                           entryNotes = Some ''Evidence archived and encrypted'',
                           entryHash = Some ''0102'' \<rparr>],
       status = Archived, integrityVerified = True, encryptionKey = Some EmptyKey \<rparr>"

definition tx :: "string \<Rightarrow> string \<Rightarrow> int \<Rightarrow> int \<Rightarrow> transaction" where
  "tx a b amt t = \<lparr> txFrom = a, txTo = b, amount = amt, txTimestamp = t \<rparr>"

definition ev :: "int \<Rightarrow> event" where
  "ev t = \<lparr> evtTimestamp = t, evtLabel = [] \<rparr>"

definition tamperedEvidence :: VaultEvidence where
  "tamperedEvidence = sampleEvidence \<lparr> fileHash := ''ffff'' \<rparr>"

definition verifiedEntry :: "string \<Rightarrow> ChainEntry" where
  "verifiedEntry h = \<lparr> timestamp = 20, action = ActVerified, investigator = ''alice'',
                       entryNotes = Some ''Integrity verified - no tampering detected'',
                       entryHash = Some h \<rparr>"

definition cycleTransactions :: "transaction list" where
  "cycleTransactions = [tx ''A'' ''B'' 100 0, tx ''B'' ''C'' 100 60, tx ''C'' ''A'' 100 120]"

definition spacedTransactions :: "transaction list" where
  "spacedTransactions = map (\<lambda>i. tx ''A'' ''B'' 10 (86400 * int i)) [0 ..< 51]"

definition laterPairTransactions :: "transaction list" where
  "laterPairTransactions =
     [tx ''X'' ''Y'' 100 0, tx ''X'' ''Y'' 100 400, tx ''X'' ''Y'' 100 500]"

definition burstEvents :: "event list" where
  "burstEvents = map ev [0, 1000, 2000, 70000, 71000]"

section \<open>Duplicate detection, described by first occurrences\<close>

text \<open>What \<open>detectDuplicates\<close> reports, said without the loop: \<open>firstWithKey ts k\<close> is
  the index of the first transaction of \<open>ts\<close> whose key is \<open>k\<close>, and the transaction at
  index \<open>j\<close> is reported when it is not itself that first one and lies less than 300
  away from it (for \<open>j\<close> within the list the first index is at most \<open>j\<close>, so both
  reads are in range). \<open>seenOf pre off\<close> is the content of \<open>seen\<close> once the loop has
  gone through \<open>pre\<close>.\<close>

definition firstWithKey :: "transaction list \<Rightarrow> string \<Rightarrow> nat" where
  "firstWithKey ts k = length (takeWhile (\<lambda>u. txKey u \<noteq> k) ts)"

definition duplicateOfFirst :: "transaction list \<Rightarrow> nat \<Rightarrow> duplicate list" where
  "duplicateOfFirst ts j =
     (let t = ts ! j;
          i = firstWithKey ts (txKey t);
          td = \<bar>txTimestamp t - txTimestamp (ts ! i)\<bar>
      in if i < j \<and> td < 300
         then [\<lparr> dupTx = t, timeDifference = td, duplicateOf = i \<rparr>]
         else [])"

definition seenOf :: "transaction list \<Rightarrow> nat \<Rightarrow> (string \<rightharpoonup> seen_transaction)" where
  "seenOf pre off k =
     (if k \<in> txKey ` set pre
      then Some \<lparr> seenTx = pre ! firstWithKey pre k, seenId = off + firstWithKey pre k \<rparr>
      else None)"

section \<open>Properties of the evidence vault\<close>

lemma archive_lookup:
  assumes "archiveEvidence P cid fname fileData meta tgs rd reg = Inr (e, reg')"
  shows "map_of reg' (evId e) = Some e"
  using assms
  by (auto simp: archiveEvidence_def Let_def update_conv' split: sum.splits)

lemma archive_chain:
  assumes "archiveEvidence P cid fname fileData meta tgs rd reg = Inr (e, reg0)"
  shows "\<exists>e0. chainOfCustody e = [e0] \<and> action e0 = ActCreated \<and> timestamp e0 = nowEntry rd"
  using assms by (auto simp: archiveEvidence_def Let_def split: sum.splits)

lemma sample_archive:
  "archiveEvidence plainPlatform ''case-1'' ''dump.SQL'' [1, 2] sampleMeta [] sampleReadings []
     = Inr (sampleEvidence, [(''EV-10-k3x'', sampleEvidence)])"
  by code_simp

lemma sample_id: "evId sampleEvidence = ''EV-10-k3x''"
  by (simp add: sampleEvidence_def)

text \<open>On a known id \<open>verifyIntegrity\<close> has one result, whatever the record holds.\<close>

lemma verify_known:
  assumes "map_of reg eid = Some e"
  shows "verifyIntegrity eid who now reg =
           Inr (\<lparr> valid = True,
                   message = ''Evidence integrity verified - no tampering detected'',
                   originalHash = fileHash e, currentHash = encryptedHash e \<rparr>,
                AList.update eid
                  (e \<lparr> chainOfCustody := chainOfCustody e @
                         [\<lparr> timestamp = now, action = ActVerified, investigator = who,
                            entryNotes = Some ''Integrity verified - no tampering detected'',
                            entryHash = Some (fileHash e) \<rparr>],
                       integrityVerified := True \<rparr>) reg)"
  using assms by (simp add: verifyIntegrity_def Let_def)

lemma applyOp_chain:
  assumes "map_of reg eid = Some e"
  shows "\<exists>e' x. map_of (applyOp P eid reg op) eid = Some e'
           \<and> chainOfCustody e' = chainOfCustody e @ [x]
           \<and> timestamp x = opTime op \<and> action x = opAction op"
proof (cases op)
  case (OpAccess who purpose now)
  then show ?thesis using assms
    by (simp add: accessEvidence_def Let_def update_conv')
next
  case (OpVerify who now)
  then show ?thesis using assms
    by (simp add: verifyIntegrity_def Let_def update_conv')
next
  case (OpExport who fmt now nowSig)
  then show ?thesis using assms
    by (simp add: exportEvidence_def Let_def update_conv' split: sum.splits)
qed

lemma runOps_Nil: "runOps P eid [] reg = reg"
  by (simp add: runOps_def)

lemma runOps_Cons: "runOps P eid (op # ops) reg = runOps P eid ops (applyOp P eid reg op)"
  by (simp add: runOps_def)

lemma runOps_append:
  "runOps P eid (ops1 @ ops2) reg = runOps P eid ops2 (runOps P eid ops1 reg)"
  by (simp add: runOps_def)

lemma runOps_chain:
  assumes "map_of reg eid = Some e"
  shows "\<exists>e' new. map_of (runOps P eid ops reg) eid = Some e'
           \<and> chainOfCustody e' = chainOfCustody e @ new
           \<and> map timestamp new = map opTime ops \<and> map action new = map opAction ops"
  using assms
proof (induction ops arbitrary: reg e)
  case Nil
  then show ?case by (simp add: runOps_Nil)
next
  case (Cons op ops)
  from applyOp_chain [OF Cons.prems, of P op]
  obtain e1 x where e1: "map_of (applyOp P eid reg op) eid = Some e1"
    and c1: "chainOfCustody e1 = chainOfCustody e @ [x]"
    and x: "timestamp x = opTime op" "action x = opAction op"
    by blast
  from Cons.IH [OF e1]
  obtain e' new where e': "map_of (runOps P eid ops (applyOp P eid reg op)) eid = Some e'"
    and c': "chainOfCustody e' = chainOfCustody e1 @ new"
    and n: "map timestamp new = map opTime ops" "map action new = map opAction ops"
    by blast
  show ?case
  proof (intro exI conjI)
    show "map_of (runOps P eid (op # ops) reg) eid = Some e'"
      using e' by (simp add: runOps_Cons)
    show "chainOfCustody e' = chainOfCustody e @ (x # new)"
      using c' c1 by simp
    show "map timestamp (x # new) = map opTime (op # ops)" using x n by simp
    show "map action (x # new) = map opAction (op # ops)" using x n by simp
  qed
qed

lemma chainAt_runOps:
  assumes "map_of reg eid = Some e"
  shows "\<exists>new. chainAt (runOps P eid ops reg) eid = chainOfCustody e @ new
           \<and> map timestamp new = map opTime ops \<and> map action new = map opAction ops"
  using runOps_chain [OF assms, of P ops] by (auto simp: chainAt_def)

text \<open>
  C1. Whenever \<open>archiveEvidence\<close> returns a record, \<open>verifyIntegrity\<close> called next on
  that record's id, by any investigator and at any clock reading, returns (it does not
  throw) an outcome with \<open>valid = true\<close>. This holds for every byte input, case id,
  file name, metadata, tags, platform and prior registry.
\<close>

theorem archive_then_verify_valid:
  assumes "archiveEvidence P cid fname fileData meta tgs rd reg = Inr (e, reg')"
  shows "\<exists>out reg''. verifyIntegrity (evId e) who now reg' = Inr (out, reg'') \<and> valid out"
  using archive_lookup [OF assms] by (simp add: verifyIntegrity_def Let_def)

theorem archive_then_verify_valid_witness:
  "archiveEvidence plainPlatform ''case-1'' ''dump.SQL'' [1, 2] sampleMeta [] sampleReadings []
     = Inr (sampleEvidence, [(''EV-10-k3x'', sampleEvidence)])
   \<and> (\<exists>out reg''. verifyIntegrity ''EV-10-k3x'' ''alice'' 20 [(''EV-10-k3x'', sampleEvidence)]
                     = Inr (out, reg'') \<and> valid out)"
  using archive_then_verify_valid [OF sample_archive, of "''alice''" 20] sample_archive
  by (simp add: sample_id)

text \<open>
  C2. The claim: when the hash \<open>verifyIntegrity\<close> recomputes differs from the stored
  one, the record becomes \<open>flagged\<close> with \<open>integrityVerified = false\<close> and the outcome
  has \<open>valid = false\<close>. The function recomputes nothing (see \<open>verify_known\<close>). Here the
  record archived from the bytes \<open>[1, 2]\<close> has had its stored \<open>fileHash\<close> overwritten
  with \<open>ffff\<close>, so that it no longer agrees with the snapshot \<open>0102\<close> of the
  \<open>created\<close> entry: the outcome is \<open>valid = true\<close> although it reports two different
  hashes, the status stays \<open>archived\<close> and \<open>integrityVerified\<close> is set to \<open>true\<close>.
\<close>

theorem verify_tampered_reports_valid:
  "verifyIntegrity ''EV-10-k3x'' ''alice'' 20 [(''EV-10-k3x'', tamperedEvidence)]
     = Inr (\<lparr> valid = True,
               message = ''Evidence integrity verified - no tampering detected'',
               originalHash = ''ffff'', currentHash = ''070102'' \<rparr>,
            [(''EV-10-k3x'',
              tamperedEvidence \<lparr> chainOfCustody := chainOfCustody tamperedEvidence @
                                   [verifiedEntry ''ffff''],
                                 integrityVerified := True \<rparr>)])
   \<and> map entryHash (chainOfCustody tamperedEvidence) = [Some ''0102'']
   \<and> status (tamperedEvidence \<lparr> chainOfCustody := chainOfCustody tamperedEvidence @
                                   [verifiedEntry ''ffff''],
                                 integrityVerified := True \<rparr>) = Archived"
  by (simp add: verifyIntegrity_def tamperedEvidence_def sampleEvidence_def verifiedEntry_def
        Let_def)

text \<open>What one call, and any number of calls, of \<open>verifyIntegrity\<close> on a known id
  leave in the chain of custody: one \<open>verified\<close> entry per call, in call order,
  stamped with the call's clock reading; the entry of a single call carries the
  record's stored \<open>fileHash\<close>.\<close>

lemma verify_appends_one_entry:
  assumes "map_of reg eid = Some e"
  shows "(\<exists>out reg1 e1 x. verifyIntegrity eid who now reg = Inr (out, reg1)
            \<and> map_of reg1 eid = Some e1
            \<and> chainOfCustody e1 = chainOfCustody e @ [x] \<and> action x = ActVerified
            \<and> entryHash x = Some (fileHash e))
       \<and> (\<exists>new. chainAt (runOps P eid (map (\<lambda>c. OpVerify (fst c) (snd c)) calls) reg) eid
                    = chainOfCustody e @ new
            \<and> length new = length calls
            \<and> map action new = replicate (length calls) ActVerified
            \<and> map timestamp new = map snd calls)"
proof
  show "\<exists>out reg1 e1 x. verifyIntegrity eid who now reg = Inr (out, reg1)
          \<and> map_of reg1 eid = Some e1
          \<and> chainOfCustody e1 = chainOfCustody e @ [x] \<and> action x = ActVerified
          \<and> entryHash x = Some (fileHash e)"
    using assms by (simp add: verifyIntegrity_def Let_def update_conv')
next
  let ?ops = "map (\<lambda>c. OpVerify (fst c) (snd c)) calls"
  from chainAt_runOps [OF assms, of P ?ops] obtain new where
    c: "chainAt (runOps P eid ?ops reg) eid = chainOfCustody e @ new"
    and t: "map timestamp new = map opTime ?ops"
    and a: "map action new = map opAction ?ops"
    by blast
  have len: "length new = length calls"
    using t by (metis length_map)
  have act: "map action new = replicate (length calls) ActVerified"
    using a by (simp add: comp_def map_replicate_const)
  have tim: "map timestamp new = map snd calls"
    using t by (simp add: comp_def)
  from c len act tim
  show "\<exists>new. chainAt (runOps P eid ?ops reg) eid = chainOfCustody e @ new
          \<and> length new = length calls
          \<and> map action new = replicate (length calls) ActVerified
          \<and> map timestamp new = map snd calls"
    by blast
qed

text \<open>
  C3. The claim: every call of \<open>verifyIntegrity\<close> appends exactly one \<open>verified\<close>
  entry, and that entry carries the recomputed hash as its snapshot. The count holds
  (\<open>verify_appends_one_entry\<close>); the snapshot does not, since nothing is recomputed and
  the entry copies the stored \<open>fileHash\<close>, against the field's own description
  (\<open>Hash of file at this point in time\<close>). On the record archived from the bytes
  \<open>[1, 2]\<close>, whose hash on this platform is \<open>0102\<close>, with the stored \<open>fileHash\<close>
  overwritten by \<open>ffff\<close>, two calls leave two \<open>verified\<close> entries after the
  \<open>created\<close> one, and both carry \<open>ffff\<close>: neither the hash of the file nor the
  \<open>currentHash\<close> \<open>070102\<close> that the outcome reports.
\<close>

theorem verify_entry_carries_stored_hash:
  "calculateHash plainPlatform [1, 2] = Inr ''0102''
   \<and> map action (chainAt (runOps plainPlatform ''EV-10-k3x''
                    [OpVerify ''alice'' 20, OpVerify ''bob'' 30]
                    [(''EV-10-k3x'', tamperedEvidence)]) ''EV-10-k3x'')
       = [ActCreated, ActVerified, ActVerified]
   \<and> map entryHash (chainAt (runOps plainPlatform ''EV-10-k3x''
                    [OpVerify ''alice'' 20, OpVerify ''bob'' 30]
                    [(''EV-10-k3x'', tamperedEvidence)]) ''EV-10-k3x'')
       = [Some ''0102'', Some ''ffff'', Some ''ffff'']
   \<and> (case verifyIntegrity ''EV-10-k3x'' ''alice'' 20 [(''EV-10-k3x'', tamperedEvidence)] of
         Inl err \<Rightarrow> None
       | Inr (out, reg') \<Rightarrow> Some (currentHash out)) = Some ''070102''"
proof (intro conjI)
  show "calculateHash plainPlatform [1, 2] = Inr ''0102''"
    by code_simp
  show "map action (chainAt (runOps plainPlatform ''EV-10-k3x''
                    [OpVerify ''alice'' 20, OpVerify ''bob'' 30]
                    [(''EV-10-k3x'', tamperedEvidence)]) ''EV-10-k3x'')
          = [ActCreated, ActVerified, ActVerified]"
    by code_simp
  show "map entryHash (chainAt (runOps plainPlatform ''EV-10-k3x''
                    [OpVerify ''alice'' 20, OpVerify ''bob'' 30]
                    [(''EV-10-k3x'', tamperedEvidence)]) ''EV-10-k3x'')
          = [Some ''0102'', Some ''ffff'', Some ''ffff'']"
    by code_simp
  show "(case verifyIntegrity ''EV-10-k3x'' ''alice'' 20 [(''EV-10-k3x'', tamperedEvidence)] of
          Inl err \<Rightarrow> None
        | Inr (out, reg') \<Rightarrow> Some (currentHash out)) = Some ''070102''"
    by code_simp
qed

text \<open>
  C4, as amended. For every record that \<open>archiveEvidence\<close> returns and every sequence
  of \<open>accessEvidence\<close>, \<open>verifyIntegrity\<close> and \<open>exportEvidence\<close> calls on its id: the
  chain at construction is the single \<open>created\<close> entry, stamped with the clock reading
  of the archival; after any part \<open>ops1\<close> of the sequence the chain still begins with
  that entry and has one entry more per call; the chain after \<open>ops1\<close> is a prefix of the
  chain after any continuation \<open>ops1 @ ops2\<close>, so that no entry is removed or
  reordered; and the timestamps are non-decreasing along the chain provided the
  readings of \<open>Date.now()\<close>, from the archival on, are non-decreasing in call order.
\<close>

theorem custody_chain_invariant:
  assumes arch: "archiveEvidence P cid fname fileData meta tgs rd reg = Inr (e, reg0)"
  shows "(\<exists>e0. chainOfCustody e = [e0] \<and> action e0 = ActCreated \<and> timestamp e0 = nowEntry rd)
       \<and> chainAt reg0 (evId e) = chainOfCustody e
       \<and> prefix (chainOfCustody e) (chainAt (runOps P (evId e) ops1 reg0) (evId e))
       \<and> prefix (chainAt (runOps P (evId e) ops1 reg0) (evId e))
                (chainAt (runOps P (evId e) (ops1 @ ops2) reg0) (evId e))
       \<and> length (chainAt (runOps P (evId e) ops1 reg0) (evId e)) = 1 + length ops1
       \<and> (sorted (nowEntry rd # map opTime ops1) \<longrightarrow>
            sorted (map timestamp (chainAt (runOps P (evId e) ops1 reg0) (evId e))))"
proof -
  let ?eid = "evId e"
  have look: "map_of reg0 ?eid = Some e" by (rule archive_lookup [OF arch])
  from archive_chain [OF arch] obtain e0 where
    e0: "chainOfCustody e = [e0]" "action e0 = ActCreated" "timestamp e0 = nowEntry rd"
    by blast
  from chainAt_runOps [OF look, of P ops1] obtain new1 where
    n1: "chainAt (runOps P ?eid ops1 reg0) ?eid = chainOfCustody e @ new1"
        "map timestamp new1 = map opTime ops1"
    by blast
  obtain e1 where e1: "map_of (runOps P ?eid ops1 reg0) ?eid = Some e1"
    using runOps_chain [OF look, of P ops1] by blast
  then have c1: "chainAt (runOps P ?eid ops1 reg0) ?eid = chainOfCustody e1"
    by (simp add: chainAt_def)
  from chainAt_runOps [OF e1, of P ops2] obtain new2 where
    n2: "chainAt (runOps P ?eid ops2 (runOps P ?eid ops1 reg0)) ?eid = chainOfCustody e1 @ new2"
    by blast
  have len: "length new1 = length ops1"
    using n1(2) by (metis length_map)
  have p1: "\<exists>e0. chainOfCustody e = [e0] \<and> action e0 = ActCreated \<and> timestamp e0 = nowEntry rd"
    using e0 by blast
  have p2: "chainAt reg0 ?eid = chainOfCustody e" using look by (simp add: chainAt_def)
  have p3: "prefix (chainOfCustody e) (chainAt (runOps P ?eid ops1 reg0) ?eid)"
    using n1(1) by simp
  have p4: "prefix (chainAt (runOps P ?eid ops1 reg0) ?eid)
                (chainAt (runOps P ?eid (ops1 @ ops2) reg0) ?eid)"
    using n2 c1 by (simp add: runOps_append)
  have p5: "length (chainAt (runOps P ?eid ops1 reg0) ?eid) = 1 + length ops1"
    using n1(1) e0(1) len by simp
  have p6: "sorted (nowEntry rd # map opTime ops1) \<longrightarrow>
            sorted (map timestamp (chainAt (runOps P ?eid ops1 reg0) ?eid))"
    using n1 e0 by simp
  from p1 p2 p3 p4 p5 p6 show ?thesis by blast
qed

theorem custody_chain_invariant_witness:
  "sorted (nowEntry sampleReadings
             # map opTime [OpAccess ''alice'' ''review'' 20, OpVerify ''bob'' 30])
   \<and> sorted (map timestamp (chainAt (runOps plainPlatform ''EV-10-k3x''
                 [OpAccess ''alice'' ''review'' 20, OpVerify ''bob'' 30]
                 [(''EV-10-k3x'', sampleEvidence)]) ''EV-10-k3x''))
   \<and> length (chainAt (runOps plainPlatform ''EV-10-k3x''
                 [OpAccess ''alice'' ''review'' 20, OpVerify ''bob'' 30]
                 [(''EV-10-k3x'', sampleEvidence)]) ''EV-10-k3x'') = 3
   \<and> prefix (chainAt (runOps plainPlatform ''EV-10-k3x''
                 [OpAccess ''alice'' ''review'' 20, OpVerify ''bob'' 30]
                 [(''EV-10-k3x'', sampleEvidence)]) ''EV-10-k3x'')
             (chainAt (runOps plainPlatform ''EV-10-k3x''
                 [OpAccess ''alice'' ''review'' 20, OpVerify ''bob'' 30,
                  OpExport ''carol'' Encrypted 40 41]
                 [(''EV-10-k3x'', sampleEvidence)]) ''EV-10-k3x'')"
proof -
  have h: "sorted (nowEntry sampleReadings
                     # map opTime [OpAccess ''alice'' ''review'' 20, OpVerify ''bob'' 30])"
    by (simp add: sampleReadings_def)
  show ?thesis
    using h custody_chain_invariant [OF sample_archive,
            of "[OpAccess ''alice'' ''review'' 20, OpVerify ''bob'' 30]"
               "[OpExport ''carol'' Encrypted 40 41]"]
    by (simp add: sample_id)
qed

text \<open>The claim has the timestamps non-decreasing for every sequence of operations.
  The code stamps each entry with \<open>Date.now()\<close>, the wall clock, and compares nothing:
  when the clock reads 10 at the archival and 5 at a later access (it has been set
  back in between), the chain's timestamps are 10, 5.\<close>

theorem custody_timestamps_counterexample:
  "archiveEvidence plainPlatform ''case-1'' ''dump.SQL'' [1, 2] sampleMeta [] sampleReadings []
     = Inr (sampleEvidence, [(''EV-10-k3x'', sampleEvidence)])
   \<and> map timestamp (chainAt (runOps plainPlatform ''EV-10-k3x''
                      [OpAccess ''alice'' ''review'' 5]
                      [(''EV-10-k3x'', sampleEvidence)]) ''EV-10-k3x'') = [10, 5]
   \<and> \<not> sorted (map timestamp (chainAt (runOps plainPlatform ''EV-10-k3x''
                      [OpAccess ''alice'' ''review'' 5]
                      [(''EV-10-k3x'', sampleEvidence)]) ''EV-10-k3x''))"
proof -
  have "map timestamp (chainAt (runOps plainPlatform ''EV-10-k3x''
                      [OpAccess ''alice'' ''review'' 5]
                      [(''EV-10-k3x'', sampleEvidence)]) ''EV-10-k3x'') = [10, 5]"
    by (simp add: runOps_def accessEvidence_def chainAt_def sampleEvidence_def Let_def)
  then show ?thesis using sample_archive by simp
qed

text \<open>
  C10. For a case id that no record of the registry carries, \<open>getCaseSummary\<close> returns
  \<open>totalEvidence = 0\<close>, \<open>totalSize = 0\<close> and \<open>integrityStatus = 'all_verified'\<close>: the
  test that every record is verified holds on the empty selection.
\<close>

theorem empty_case_summary:
  assumes "\<forall>e \<in> set (map snd reg). caseId e \<noteq> cid"
  shows "totalEvidence (getCaseSummary reg cid) = 0
       \<and> totalSize (getCaseSummary reg cid) = 0
       \<and> integrityStatus (getCaseSummary reg cid) = AllVerified"
proof -
  have "filter (\<lambda>e. caseId e = cid) (map snd reg) = []"
    using assms by (simp add: filter_empty_conv)
  then show ?thesis by (simp add: getCaseSummary_def)
qed

theorem empty_case_summary_witness:
  "caseId sampleEvidence = ''case-1''
   \<and> totalEvidence (getCaseSummary [(''EV-10-k3x'', sampleEvidence)] ''case-2'') = 0
   \<and> totalSize (getCaseSummary [(''EV-10-k3x'', sampleEvidence)] ''case-2'') = 0
   \<and> integrityStatus (getCaseSummary [(''EV-10-k3x'', sampleEvidence)] ''case-2'') = AllVerified"
proof -
  have h: "\<forall>e \<in> set (map snd [(''EV-10-k3x'', sampleEvidence)]). caseId e \<noteq> ''case-2''"
    by (simp add: sampleEvidence_def)
  show ?thesis using empty_case_summary [OF h] by (simp add: sampleEvidence_def)
qed

section \<open>Properties of the analytics engine\<close>

subsection \<open>Risk score\<close>

lemma assessFraud_bounds:
  "0 \<le> riskScore (assessFraud b c r d v n) \<and> riskScore (assessFraud b c r d v n) \<le> 100"
  by (simp add: assessFraud_def Let_def)

text \<open>
  C5. For every list of transactions the \<open>riskScore\<close> that \<open>detectFinancialFraud\<close>
  returns lies between 0 and 100; and whenever all five sub-analyses fire (the Benford
  anomaly, a circular transfer, a round-number share above 30, a duplicate, a velocity
  anomaly), where the contributions add up to 105, the reported score is exactly 100.
\<close>

theorem riskScore_clamped:
  "0 \<le> riskScore (detectFinancialFraud ts)
   \<and> riskScore (detectFinancialFraud ts) \<le> 100
   \<and> (anomaly b \<and> c \<noteq> [] \<and> roundFires r \<and> d \<noteq> [] \<and> v \<noteq> []
        \<longrightarrow> riskScore (assessFraud b c r d v n) = 100)"
proof (intro conjI impI)
  show "0 \<le> riskScore (detectFinancialFraud ts)"
    using assessFraud_bounds by (simp add: detectFinancialFraud_def)
  show "riskScore (detectFinancialFraud ts) \<le> 100"
    using assessFraud_bounds by (simp add: detectFinancialFraud_def)
next
  assume "anomaly b \<and> c \<noteq> [] \<and> roundFires r \<and> d \<noteq> [] \<and> v \<noteq> []"
  then show "riskScore (assessFraud b c r d v n) = 100"
    by (simp add: assessFraud_def Let_def)
qed

theorem riskScore_clamped_witness:
  "riskScore (assessFraud
      \<lparr> anomaly = True, anomalousDigits = [], flaggedTransactions = [] \<rparr>
      [\<lparr> accounts = [''A'', ''B'', ''C''] \<rparr>]
      \<lparr> roundCount = 2, percentage = Some 40, roundTransactions = [] \<rparr>
      [\<lparr> dupTx = tx ''X'' ''Y'' 100 120, timeDifference = 120, duplicateOf = 0 \<rparr>]
      [\<lparr> account = ''A'', txCount = 51, timeWindow = 60, velocity = 51 / 60 \<rparr>]
      5) = 100
   \<and> 0 \<le> riskScore (detectFinancialFraud cycleTransactions)
   \<and> riskScore (detectFinancialFraud cycleTransactions) \<le> 100"
  using riskScore_clamped [of cycleTransactions
          "\<lparr> anomaly = True, anomalousDigits = [], flaggedTransactions = [] \<rparr>"
          "[\<lparr> accounts = [''A'', ''B'', ''C''] \<rparr>]"
          "\<lparr> roundCount = 2, percentage = Some 40, roundTransactions = [] \<rparr>"
          "[\<lparr> dupTx = tx ''X'' ''Y'' 100 120, timeDifference = 120, duplicateOf = 0 \<rparr>]"
          "[\<lparr> account = ''A'', txCount = 51, timeWindow = 60, velocity = 51 / 60 \<rparr>]"
          5]
  by (simp add: roundFires_def)

subsection \<open>Timeline clustering\<close>

text \<open>
  C6. The claim: events at 0, 1000, 2000, 70000, 71000 ms give exactly two clusters.
  \<open>identifyEventClusters\<close> pushes a cluster only when a gap of at least 60000 ms closes
  it and returns without pushing the cluster that is open at the end of the loop: on
  these events it returns the one cluster of the events at 0, 1000, 2000, and
  \<open>buildTimeline\<close> reports a cluster count of 1.
\<close>

theorem clusters_of_burst_events:
  "identifyEventClusters burstEvents = [closeCluster (map ev [0, 1000, 2000])]
   \<and> length (identifyEventClusters burstEvents) = 1
   \<and> clusterCount (resultMeta (buildTimeline (\<lambda>t. 12) burstEvents)) = 1"
  by code_simp

subsection \<open>Circular transfers\<close>

lemma detectCircularTransfers_empty: "detectCircularTransfers ts = []"
  by (simp add: detectCircularTransfers_def Let_def)

text \<open>
  C7. The claim: for the transfers A to B, B to C, C to A the engine reports exactly
  one cycle of three nodes and adds 35 once. \<open>detectCircularTransfers\<close> returns the
  empty list on every input (\<open>detectCircularTransfers_empty\<close>): on these three
  transactions it reports no cycle, no finding \<open>circular-001\<close> is produced, and the
  score is 40, the Benford and round-number contributions alone.
\<close>

theorem no_cycle_reported_on_cycle:
  "detectCircularTransfers cycleTransactions = []
   \<and> map findingId (findings (detectFinancialFraud cycleTransactions))
       = [''benford-001'', ''round-001'']
   \<and> riskScore (detectFinancialFraud cycleTransactions) = 40"
  by code_simp

subsection \<open>Duplicates\<close>

lemma same_triple_same_key:
  "txFrom a = txFrom b \<Longrightarrow> txTo a = txTo b \<Longrightarrow> amount a = amount b \<Longrightarrow> txKey a = txKey b"
  by (simp add: txKey_def)

lemma firstWithKey_in:
  assumes "k \<in> txKey ` set pre"
  shows "firstWithKey (pre @ xs) k = firstWithKey pre k"
proof -
  from assms obtain x where x: "x \<in> set pre" "\<not> (txKey x \<noteq> k)" by auto
  show ?thesis
    unfolding firstWithKey_def
    using takeWhile_append1 [of x pre "\<lambda>u. txKey u \<noteq> k" xs] x by simp
qed

lemma firstWithKey_less:
  assumes "k \<in> txKey ` set pre"
  shows "firstWithKey pre k < length pre"
proof -
  let ?P = "\<lambda>u. txKey u \<noteq> k"
  from assms have ne: "dropWhile ?P pre \<noteq> []"
    by (auto simp: dropWhile_eq_Nil_conv)
  have "length (takeWhile ?P pre) < length (takeWhile ?P pre) + length (dropWhile ?P pre)"
    using ne by (simp del: dropWhile_eq_Nil_conv)
  also have "\<dots> = length (takeWhile ?P pre @ dropWhile ?P pre)"
    by (simp only: length_append)
  also have "\<dots> = length pre"
    by (simp only: takeWhile_dropWhile_id)
  finally show ?thesis by (simp only: firstWithKey_def)
qed

lemma firstWithKey_fresh:
  assumes "txKey t \<notin> txKey ` set pre"
  shows "firstWithKey (pre @ t # xs) (txKey t) = length pre"
proof -
  have "\<And>x. x \<in> set pre \<Longrightarrow> txKey x \<noteq> txKey t"
    using assms by (metis image_eqI)
  then have "takeWhile (\<lambda>u. txKey u \<noteq> txKey t) (pre @ t # xs)
               = pre @ takeWhile (\<lambda>u. txKey u \<noteq> txKey t) (t # xs)"
    by (rule takeWhile_append2)
  then show ?thesis by (simp add: firstWithKey_def)
qed

lemma seenOf_snoc_old:
  assumes "txKey t \<in> txKey ` set pre"
  shows "seenOf (pre @ [t]) off = seenOf pre off"
proof
  fix k
  show "seenOf (pre @ [t]) off k = seenOf pre off k"
  proof (cases "k \<in> txKey ` set pre")
    case True
    then show ?thesis
      using firstWithKey_in [OF True, of "[t]"] firstWithKey_less [OF True]
      by (simp add: seenOf_def nth_append)
  next
    case False
    then have "k \<noteq> txKey t" using assms by auto
    with False show ?thesis by (auto simp: seenOf_def)
  qed
qed

lemma seenOf_snoc_new:
  assumes "txKey t \<notin> txKey ` set pre"
  shows "seenOf (pre @ [t]) off
           = (seenOf pre off)(txKey t \<mapsto> \<lparr> seenTx = t, seenId = off + length pre \<rparr>)"
proof
  fix k
  show "seenOf (pre @ [t]) off k
          = ((seenOf pre off)(txKey t \<mapsto> \<lparr> seenTx = t, seenId = off + length pre \<rparr>)) k"
  proof (cases "k = txKey t")
    case True
    then show ?thesis
      using firstWithKey_fresh [OF assms, of "[]"] by (simp add: seenOf_def)
  next
    case False
    show ?thesis
    proof (cases "k \<in> txKey ` set pre")
      case True
      then show ?thesis
        using False firstWithKey_in [OF True, of "[t]"] firstWithKey_less [OF True]
        by (simp add: seenOf_def nth_append)
    next
      case F2: False
      then show ?thesis using False by (auto simp: seenOf_def)
    qed
  qed
qed

lemma seenOf_Nil: "seenOf [] 0 = Map.empty"
  by (rule ext) (simp add: seenOf_def)

text \<open>The loop, started after \<open>pre\<close> with the \<open>seen\<close> that \<open>pre\<close> leaves, reports for
  each remaining index what \<open>duplicateOfFirst\<close> says.\<close>

lemma duplicatesFrom_char:
  "duplicatesFrom (seenOf pre 0) (length pre) ts
     = concat (map (duplicateOfFirst (pre @ ts)) [length pre ..< length pre + length ts])"
proof (induction ts arbitrary: pre)
  case Nil
  then show ?case by simp
next
  case (Cons t ts)
  let ?pre' = "pre @ [t]"
  let ?rest = "concat (map (duplicateOfFirst (?pre' @ ts))
                        [length ?pre' ..< length ?pre' + length ts])"
  have upt: "[length pre ..< length pre + length (t # ts)]
               = length pre # [length ?pre' ..< length ?pre' + length ts]"
    by (subst upt_rec) (simp del: upt_Suc)
  have split: "concat (map (duplicateOfFirst (pre @ t # ts))
                        [length pre ..< length pre + length (t # ts)])
                 = duplicateOfFirst (pre @ t # ts) (length pre) @ ?rest"
    unfolding upt by simp
  show ?case
  proof (cases "txKey t \<in> txKey ` set pre")
    case True
    let ?i = "firstWithKey pre (txKey t)"
    let ?td = "\<bar>txTimestamp t - txTimestamp (pre ! ?i)\<bar>"
    let ?here = "if ?td < 300
                 then [\<lparr> dupTx = t, timeDifference = ?td, duplicateOf = ?i \<rparr>] else []"
    have s: "seenOf pre 0 (txKey t) = Some \<lparr> seenTx = pre ! ?i, seenId = ?i \<rparr>"
      using True by (simp add: seenOf_def)
    have i: "firstWithKey (pre @ t # ts) (txKey t) = ?i" "?i < length pre"
      using firstWithKey_in [OF True] firstWithKey_less [OF True] by simp_all
    have here: "duplicateOfFirst (pre @ t # ts) (length pre) = ?here"
      using i by (simp add: duplicateOfFirst_def Let_def nth_append)
    have "duplicatesFrom (seenOf pre 0) (length pre) (t # ts)
            = ?here @ duplicatesFrom (seenOf pre 0) (Suc (length pre)) ts"
      using s by (simp add: Let_def)
    also have "duplicatesFrom (seenOf pre 0) (Suc (length pre)) ts
                 = duplicatesFrom (seenOf ?pre' 0) (length ?pre') ts"
      using seenOf_snoc_old [OF True, of 0] by simp
    also have "\<dots> = ?rest" by (rule Cons.IH)
    finally show ?thesis using split here by simp
  next
    case False
    have s: "seenOf pre 0 (txKey t) = None" using False by (simp add: seenOf_def)
    have i: "firstWithKey (pre @ t # ts) (txKey t) = length pre"
      by (rule firstWithKey_fresh [OF False])
    have here: "duplicateOfFirst (pre @ t # ts) (length pre) = []"
      using i by (simp add: duplicateOfFirst_def Let_def)
    have "duplicatesFrom (seenOf pre 0) (length pre) (t # ts)
            = duplicatesFrom
                ((seenOf pre 0)(txKey t \<mapsto> \<lparr> seenTx = t, seenId = length pre \<rparr>))
                (Suc (length pre)) ts"
      using s by simp
    also have "\<dots> = duplicatesFrom (seenOf ?pre' 0) (length ?pre') ts"
      using seenOf_snoc_new [OF False, of 0] by simp
    also have "\<dots> = ?rest" by (rule Cons.IH)
    finally show ?thesis using split here by simp
  qed
qed

text \<open>What \<open>detectDuplicates\<close> reports on any list: in list order, the transactions
  that are not the first of their key and lie less than 300 from the first
  transaction of the key, each as a duplicate of that first one. A transaction is
  compared with no other. Transactions with the same \<open>(from, to, amount)\<close> share their
  key (\<open>same_triple_same_key\<close>). The two transactions X to Y of amount 100 at 0 and
  120 are reported, those at 0 and 400 are not.\<close>

lemma detectDuplicates_first_occurrence:
  "detectDuplicates ts = concat (map (duplicateOfFirst ts) [0 ..< length ts])
   \<and> detectDuplicates [tx ''X'' ''Y'' 100 0, tx ''X'' ''Y'' 100 120]
       = [\<lparr> dupTx = tx ''X'' ''Y'' 100 120, timeDifference = 120, duplicateOf = 0 \<rparr>]
   \<and> detectDuplicates [tx ''X'' ''Y'' 100 0, tx ''X'' ''Y'' 100 400] = []"
proof (intro conjI)
  show "detectDuplicates ts = concat (map (duplicateOfFirst ts) [0 ..< length ts])"
    using duplicatesFrom_char [of "[]" ts] by (simp add: detectDuplicates_def seenOf_Nil)
  show "detectDuplicates [tx ''X'' ''Y'' 100 0, tx ''X'' ''Y'' 100 120]
          = [\<lparr> dupTx = tx ''X'' ''Y'' 100 120, timeDifference = 120, duplicateOf = 0 \<rparr>]"
    by code_simp
  show "detectDuplicates [tx ''X'' ''Y'' 100 0, tx ''X'' ''Y'' 100 400] = []"
    by code_simp
qed

text \<open>
  C8. The claim: within a group of transactions with the same \<open>(from, to, amount)\<close>
  every pair less than 300 seconds apart is reported as a duplicate pair. \<open>seen\<close> is
  written only on the first occurrence of a key, so a later transaction is compared
  with that first one alone (\<open>detectDuplicates_first_occurrence\<close>), although the check
  is commented \<open>Within 5 minutes\<close> and the finding announces duplicate or
  near-duplicate transactions. The transactions X to Y of amount 100 at 400 and at 500
  share their key and lie 100 seconds apart; after a first one at 0, from which both
  lie 300 or more away, nothing is reported, no finding \<open>dup-001\<close> is produced and the
  20 of the duplicate check is missing from the score.
\<close>

theorem later_duplicate_pair_missed:
  "txKey (tx ''X'' ''Y'' 100 400) = txKey (tx ''X'' ''Y'' 100 500)
   \<and> \<bar>txTimestamp (tx ''X'' ''Y'' 100 500) - txTimestamp (tx ''X'' ''Y'' 100 400)\<bar> = 100
   \<and> detectDuplicates laterPairTransactions = []
   \<and> map findingId (findings (detectFinancialFraud laterPairTransactions))
       = [''benford-001'', ''round-001'']
   \<and> riskScore (detectFinancialFraud laterPairTransactions) = 40"
proof (intro conjI)
  show "txKey (tx ''X'' ''Y'' 100 400) = txKey (tx ''X'' ''Y'' 100 500)"
    by (simp add: txKey_def tx_def)
  show "\<bar>txTimestamp (tx ''X'' ''Y'' 100 500) - txTimestamp (tx ''X'' ''Y'' 100 400)\<bar> = 100"
    by (simp add: tx_def)
  show "detectDuplicates laterPairTransactions = []"
    by code_simp
  show "map findingId (findings (detectFinancialFraud laterPairTransactions))
          = [''benford-001'', ''round-001'']"
    by code_simp
  show "riskScore (detectFinancialFraud laterPairTransactions) = 40"
    by code_simp
qed

subsection \<open>Velocity\<close>

lemma accountActivity_snoc:
  "accountActivity (ts @ [t]) =
     AList.update (txFrom t)
       ((case map_of (accountActivity ts) (txFrom t) of None \<Rightarrow> [] | Some txns \<Rightarrow> txns) @ [t])
       (accountActivity ts)"
  by (simp add: accountActivity_def)

lemma accountActivity_map:
  "map_of (accountActivity ts) a
     = (if a \<in> txFrom ` set ts then Some (filter (\<lambda>t. txFrom t = a) ts) else None)"
proof (induction ts rule: rev_induct)
  case Nil
  then show ?case by (simp add: accountActivity_def)
next
  case (snoc t ts)
  have none: "filter (\<lambda>u. txFrom u = b) ts = []" if "b \<notin> txFrom ` set ts" for b
    using that by (auto simp: filter_empty_conv)
  show ?case
  proof (cases "a = txFrom t")
    case True
    then show ?thesis
      using snoc.IH none [of a] by (simp add: accountActivity_snoc update_conv')
  next
    case False
    then show ?thesis
      using snoc.IH by (auto simp: accountActivity_snoc update_conv')
  qed
qed

lemma accountActivity_distinct: "distinct (map fst (accountActivity ts))"
proof (induction ts rule: rev_induct)
  case Nil
  then show ?case by (simp add: accountActivity_def)
next
  case (snoc t ts)
  then show ?case by (simp add: accountActivity_snoc distinct_update)
qed

text \<open>The accounts flagged are those with more than 50 transactions in the whole
  list; no timestamp is read.\<close>

lemma flagged_of_activity:
  "account ` set (concat (map (\<lambda>(acct, txns).
                     if length txns > 50
                     then [\<lparr> account = acct, txCount = length txns, timeWindow = w,
                             velocity = real (length txns) / real w \<rparr>]
                     else []) xs))
     = {a. \<exists>txns. (a, txns) \<in> set xs \<and> length txns > 50}"
proof (induction xs)
  case Nil
  then show ?case by simp
next
  case (Cons p xs)
  obtain a txns where p: "p = (a, txns)" by (cases p)
  show ?case
  proof (cases "length txns > 50")
    case True
    then show ?thesis using Cons.IH p by auto
  next
    case False
    then show ?thesis using Cons.IH p by auto
  qed
qed

lemma velocity_accounts:
  "account ` set (detectVelocityAnomalies ts)
     = {a. length (filter (\<lambda>t. txFrom t = a) ts) > 50}"
proof -
  have "account ` set (detectVelocityAnomalies ts)
          = {a. \<exists>txns. (a, txns) \<in> set (accountActivity ts) \<and> length txns > 50}"
    unfolding detectVelocityAnomalies_def Let_def by (rule flagged_of_activity)
  also have "\<dots> = {a. \<exists>txns. map_of (accountActivity ts) a = Some txns \<and> length txns > 50}"
    using accountActivity_distinct [of ts] by simp
  also have "\<dots> = {a. length (filter (\<lambda>t. txFrom t = a) ts) > 50}"
  proof (rule Collect_cong)
    fix a
    show "(\<exists>txns. map_of (accountActivity ts) a = Some txns \<and> length txns > 50)
            = (length (filter (\<lambda>t. txFrom t = a) ts) > 50)"
    proof (cases "a \<in> txFrom ` set ts")
      case True
      then show ?thesis by (simp add: accountActivity_map)
    next
      case False
      then have "filter (\<lambda>t. txFrom t = a) ts = []"
        by (auto simp: filter_empty_conv)
      with False show ?thesis by (simp add: accountActivity_map)
    qed
  qed
  finally show ?thesis .
qed

text \<open>
  C9. The claim: an account is flagged only when more than 50 of its transactions fall
  within a 60-minute window. \<open>detectVelocityAnomalies\<close> counts all transactions of an
  account and uses the window only as a label (\<open>velocity_accounts\<close>): account A with
  51 transactions one day apart (timestamps are in seconds, as the 300 of the
  duplicate check), never two of them within an hour, is flagged with
  \<open>timeWindow = 60\<close>.
\<close>

theorem spaced_account_flagged:
  "detectVelocityAnomalies spacedTransactions
     = [\<lparr> account = ''A'', txCount = 51, timeWindow = 60, velocity = 51 / 60 \<rparr>]
   \<and> map txTimestamp (take 3 spacedTransactions) = [0, 86400, 172800]"
  by code_simp

end
